theory Spec2Isabelle
  imports Main
begin

section \<open>The collaboration layer of collab-notes (backend/src/socket/index.ts)\<close>

text \<open>
  The theory embeds the Socket.IO handlers of \<^verbatim>\<open>setupSocketServer\<close>: \<^verbatim>\<open>join-note\<close>,
  \<^verbatim>\<open>leave-note\<close>, \<^verbatim>\<open>note-update\<close>, \<^verbatim>\<open>disconnect\<close> and the helper
  \<^verbatim>\<open>handleLeaveNote\<close>. Every handler is a function from the state before the event to the
  state after it, together with the list of events the handler emitted.

  A handler with an \<^verbatim>\<open>await\<close> does not run in one piece: the handlers of other events
  run while it waits. \<^verbatim>\<open>leave-note\<close> and \<^verbatim>\<open>disconnect\<close> have no \<^verbatim>\<open>await\<close>.
  \<^verbatim>\<open>join-note\<close> touches the registry and the rooms only in its continuation after
  \<^verbatim>\<open>await prisma.note.findUnique\<close>, and what it has learnt before, that the note exists,
  no handler changes. So \<open>join_note\<close> is the handler as it takes effect at the moment its
  continuation runs, and \<open>join_note_resume\<close> is that continuation alone, for the events
  that arrive between a \<^verbatim>\<open>join-note\<close> and its continuation. A \<open>run\<close> lists the handlers
  in the order in which they take effect; for \<^verbatim>\<open>join-note\<close> that is the order of the
  continuations, which need not be the order in which the events arrived.
  \<^verbatim>\<open>note-update\<close> writes the note after its first \<^verbatim>\<open>await\<close> and broadcasts after its
  second; \<open>note_update\<close> is one such handler from its lookup to its broadcast, with
  nothing in between. The REST routes, which create and delete notes, are outside the
  model.

  Socket.IO and Prisma are libraries. Of Socket.IO the model has the rooms of the adapter
  (\<^verbatim>\<open>socket.join\<close>, \<^verbatim>\<open>socket.leave\<close>, \<^verbatim>\<open>io.to(room).emit\<close>) and \<^verbatim>\<open>socket.emit\<close>; the
  library's own removal of a closing socket from its rooms is not part of the handler and
  is left out. Of Prisma it has \<^verbatim>\<open>note.findUnique\<close> as a lookup in the table and
  \<^verbatim>\<open>note.update\<close> as a write that the database may reject.
\<close>

subsection \<open>JavaScript values\<close>

text \<open>
  Payloads are JavaScript objects; an object literal is the list of its properties in the
  order written, so the property names are data that theorems can speak about.
\<close>

datatype jsval =
    JUndefined
  | JStr string
  | JArr "jsval list"
  | JObj "(string \<times> jsval) list"

subsection \<open>The JavaScript \<^verbatim>\<open>Map\<close>\<close>

text \<open>
  A \<^verbatim>\<open>Map\<close> keeps its entries in insertion order. \<^verbatim>\<open>set\<close> on a key that is present
  replaces the value where the entry stands, on a new key it appends the entry;
  \<^verbatim>\<open>delete\<close> removes the entry; \<^verbatim>\<open>values()\<close> lists the values in entry order.
\<close>

type_synonym ('k, 'v) jsmap = "('k \<times> 'v) list"

definition Map_has :: "('k, 'v) jsmap \<Rightarrow> 'k \<Rightarrow> bool" where
  "Map_has m k = (k \<in> set (map fst m))"

definition Map_get :: "('k, 'v) jsmap \<Rightarrow> 'k \<Rightarrow> 'v option" where
  "Map_get m k = map_of m k"

fun Map_set :: "('k, 'v) jsmap \<Rightarrow> 'k \<Rightarrow> 'v \<Rightarrow> ('k, 'v) jsmap" where
  "Map_set [] k v = [(k, v)]"
| "Map_set ((k', v') # m) k v = (if k' = k then (k, v) # m else (k', v') # Map_set m k v)"

definition Map_delete :: "('k, 'v) jsmap \<Rightarrow> 'k \<Rightarrow> ('k, 'v) jsmap" where
  "Map_delete m k = filter (\<lambda>e. fst e \<noteq> k) m"

definition Map_values :: "('k, 'v) jsmap \<Rightarrow> 'v list" where
  "Map_values m = map snd m"

definition Map_size :: "('k, 'v) jsmap \<Rightarrow> nat" where
  "Map_size m = length m"

subsection \<open>Sockets, notes and the server state\<close>

text \<open>\<^verbatim>\<open>JwtPayload\<close> of lib/auth.ts, and \<^verbatim>\<open>socket.user\<close>, which is
  \<^verbatim>\<open>JwtPayload & { name: string }\<close>.\<close>

record JwtPayload =
  userId :: string
  email :: string

record socket_user = JwtPayload +
  name :: string

text \<open>\<^verbatim>\<open>AuthenticatedSocket\<close>: the connection's \<^verbatim>\<open>id\<close> and the optional \<^verbatim>\<open>user\<close>
  the authentication middleware attaches.\<close>

record AuthenticatedSocket =
  socket_id :: string
  user :: "socket_user option"

text \<open>A row of the \<^verbatim>\<open>note\<close> table, with the columns the handlers read or write.\<close>

record Note =
  ownerId :: string
  title :: string
  content :: string

text \<open>
  The state: the \<^verbatim>\<open>note\<close> table behind \<^verbatim>\<open>prisma.note\<close>, the module-level
  \<^verbatim>\<open>roomPresence\<close> (noteId to a Map of socketId to presence object) and the rooms of the
  Socket.IO adapter (room name to the ids of the sockets joined to it, in joining order).
\<close>

record world =
  note_table :: "string \<rightharpoonup> Note"
  roomPresence :: "(string, (string, jsval) jsmap) jsmap"
  rooms :: "string \<Rightarrow> string list"

subsection \<open>Emitted events\<close>

text \<open>
  \<^verbatim>\<open>socket.emit(ev, p)\<close> addresses one socket; \<^verbatim>\<open>io.to(room).emit(ev, p)\<close> addresses
  the sockets that are in the Socket.IO room when the call is made. An emission records
  how it was addressed and who receives it.
\<close>

datatype target = To_socket string | To_room string

record emission =
  target :: target
  recipients :: "string list"
  event :: string
  payload :: jsval

definition socket_emit :: "AuthenticatedSocket \<Rightarrow> string \<Rightarrow> jsval \<Rightarrow> emission" where
  "socket_emit socket ev p =
     \<lparr>target = To_socket (socket_id socket), recipients = [socket_id socket],
      event = ev, payload = p\<rparr>"

definition io_to_emit :: "world \<Rightarrow> string \<Rightarrow> string \<Rightarrow> jsval \<Rightarrow> emission" where
  "io_to_emit w room ev p =
     \<lparr>target = To_room room, recipients = rooms w room, event = ev, payload = p\<rparr>"

definition socket_join :: "AuthenticatedSocket \<Rightarrow> string \<Rightarrow> world \<Rightarrow> world" where
  "socket_join socket room w =
     w\<lparr>rooms := (rooms w)(room :=
          (if socket_id socket \<in> set (rooms w room) then rooms w room
           else rooms w room @ [socket_id socket]))\<rparr>"

definition socket_leave :: "AuthenticatedSocket \<Rightarrow> string \<Rightarrow> world \<Rightarrow> world" where
  "socket_leave socket room w =
     w\<lparr>rooms := (rooms w)(room := removeAll (socket_id socket) (rooms w room))\<rparr>"

subsection \<open>The handlers\<close>

text \<open>
  What a handler leaves behind: the state, the emissions in the order made, and whether
  the handler's promise was rejected (an exception left the handler).
\<close>

record result =
  after :: world
  emitted :: "emission list"
  rejected :: bool

definition finished :: "world \<Rightarrow> emission list \<Rightarrow> result" where
  "finished w out = \<lparr>after = w, emitted = out, rejected = False\<rparr>"

definition error_payload :: "string \<Rightarrow> jsval" where
  "error_payload msg = JObj [(''message'', JStr msg)]"

text \<open>The object literal of lines 102-106, stored in the room and sent as it is.\<close>

definition PresenceUser :: "socket_user \<Rightarrow> jsval" where
  "PresenceUser u =
     JObj [(''odId'', JStr (userId u)), (''name'', JStr (name u)), (''email'', JStr (email u))]"

definition presence_payload :: "jsval list \<Rightarrow> jsval" where
  "presence_payload users = JObj [(''users'', JArr users)]"

text \<open>
  \<^verbatim>\<open>socket.on('join-note', ...)\<close>. The room is a Map object mutated in place; nothing
  but \<^verbatim>\<open>roomPresence\<close> refers to it, so the model writes the changed room back under
  its key. \<^verbatim>\<open>roomPresence.get(noteId)!\<close> on a missing key would give
  \<^verbatim>\<open>undefined\<close> and the call of \<^verbatim>\<open>room.set\<close> would throw.
\<close>

definition join_note :: "AuthenticatedSocket \<Rightarrow> string \<Rightarrow> world \<Rightarrow> result" where
  "join_note socket noteId w =
     (case user socket of
        None \<Rightarrow> finished w []
      | Some u \<Rightarrow>
          (case note_table w noteId of
             None \<Rightarrow> finished w [socket_emit socket ''error'' (error_payload ''Note not found'')]
           | Some note \<Rightarrow>
               let w1 = socket_join socket noteId w;
                   w2 = (if \<not> Map_has (roomPresence w1) noteId
                         then w1\<lparr>roomPresence := Map_set (roomPresence w1) noteId []\<rparr>
                         else w1)
               in (case Map_get (roomPresence w2) noteId of
                     None \<Rightarrow> \<lparr>after = w2, emitted = [], rejected = True\<rparr>
                   | Some room \<Rightarrow>
                       let room' = Map_set room (socket_id socket) (PresenceUser u);
                           w3 = w2\<lparr>roomPresence := Map_set (roomPresence w2) noteId room'\<rparr>;
                           users = Map_values room'
                       in finished w3
                            [io_to_emit w3 noteId ''presence-update'' (presence_payload users)])))"

text \<open>
  The continuation of \<^verbatim>\<open>join-note\<close> after \<^verbatim>\<open>await prisma.note.findUnique\<close>
  (lines 88-112), for an authenticated socket and the answer \<open>found\<close> of the lookup. It
  runs in the state that the handlers which ran during the wait have left.
\<close>

definition join_note_resume ::
  "AuthenticatedSocket \<Rightarrow> socket_user \<Rightarrow> string \<Rightarrow> Note option \<Rightarrow> world \<Rightarrow> result" where
  "join_note_resume socket u noteId found w =
     (case found of
        None \<Rightarrow> finished w [socket_emit socket ''error'' (error_payload ''Note not found'')]
      | Some note \<Rightarrow>
          let w1 = socket_join socket noteId w;
              w2 = (if \<not> Map_has (roomPresence w1) noteId
                    then w1\<lparr>roomPresence := Map_set (roomPresence w1) noteId []\<rparr>
                    else w1)
          in (case Map_get (roomPresence w2) noteId of
                None \<Rightarrow> \<lparr>after = w2, emitted = [], rejected = True\<rparr>
              | Some room \<Rightarrow>
                  let room' = Map_set room (socket_id socket) (PresenceUser u);
                      w3 = w2\<lparr>roomPresence := Map_set (roomPresence w2) noteId room'\<rparr>;
                      users = Map_values room'
                  in finished w3
                       [io_to_emit w3 noteId ''presence-update'' (presence_payload users)]))"

text \<open>\<^verbatim>\<open>handleLeaveNote\<close> (lines 182-200). A Map object is truthy, \<^verbatim>\<open>undefined\<close> is not.\<close>

definition handleLeaveNote :: "AuthenticatedSocket \<Rightarrow> string \<Rightarrow> world \<Rightarrow> world \<times> emission list" where
  "handleLeaveNote socket noteId w =
     (let w1 = socket_leave socket noteId w
      in (case Map_get (roomPresence w1) noteId of
            None \<Rightarrow> (w1, [])
          | Some room \<Rightarrow>
              let room' = Map_delete room (socket_id socket)
              in if Map_size room' = 0
                 then (w1\<lparr>roomPresence := Map_delete (roomPresence w1) noteId\<rparr>, [])
                 else
                   let w2 = w1\<lparr>roomPresence := Map_set (roomPresence w1) noteId room'\<rparr>;
                       users = Map_values room'
                   in (w2, [io_to_emit w2 noteId ''presence-update'' (presence_payload users)])))"

definition leave_note :: "AuthenticatedSocket \<Rightarrow> string \<Rightarrow> world \<Rightarrow> result" where
  "leave_note socket noteId w =
     (case handleLeaveNote socket noteId w of (w', out) \<Rightarrow> finished w' out)"

text \<open>
  \<^verbatim>\<open>prisma.note.update({ where: { id }, data })\<close>. Whether the database accepts the write
  is decided outside the program; the handler receives that decision with the event.
  \<^verbatim>\<open>data\<close> always carries \<^verbatim>\<open>content\<close> and carries \<^verbatim>\<open>title\<close> only when the client
  sent one. A failed write rejects the promise (\<open>None\<close>).
\<close>

datatype write_outcome = Write_succeeds | Write_fails

definition prisma_note_update ::
  "write_outcome \<Rightarrow> (string \<rightharpoonup> Note) \<Rightarrow> string \<Rightarrow> string \<Rightarrow> string option \<Rightarrow> (string \<rightharpoonup> Note) option" where
  "prisma_note_update db tbl noteId c t =
     (case db of
        Write_fails \<Rightarrow> None
      | Write_succeeds \<Rightarrow>
          (case tbl noteId of
             None \<Rightarrow> None
           | Some row \<Rightarrow>
               Some (tbl(noteId \<mapsto>
                 row\<lparr>content := c, title := (case t of None \<Rightarrow> title row | Some t' \<Rightarrow> t')\<rparr>))))"

definition note_updated_payload :: "string \<Rightarrow> string option \<Rightarrow> string \<Rightarrow> jsval" where
  "note_updated_payload c t by_name =
     JObj [(''content'', JStr c),
           (''title'', (case t of None \<Rightarrow> JUndefined | Some t' \<Rightarrow> JStr t')),
           (''updatedBy'', JStr by_name)]"

text \<open>
  \<^verbatim>\<open>socket.on('note-update', ...)\<close> (lines 123-162), after the destructuring of
  \<^verbatim>\<open>data\<close> into \<^verbatim>\<open>noteId\<close>, \<^verbatim>\<open>content\<close> and the optional \<^verbatim>\<open>title\<close>. There is no
  \<^verbatim>\<open>try\<close> around the awaited write: when it is rejected the rest of the handler does not
  run and the handler's own promise is rejected.
\<close>

definition note_update ::
  "AuthenticatedSocket \<Rightarrow> string \<Rightarrow> string \<Rightarrow> string option \<Rightarrow> write_outcome \<Rightarrow> world \<Rightarrow> result" where
  "note_update socket noteId c t db w =
     (case user socket of
        None \<Rightarrow> finished w []
      | Some u \<Rightarrow>
          (case note_table w noteId of
             None \<Rightarrow> finished w [socket_emit socket ''error'' (error_payload ''Note not found'')]
           | Some note \<Rightarrow>
               if ownerId note \<noteq> userId u
               then finished w
                      [socket_emit socket ''error''
                         (error_payload ''Only the owner can edit this note'')]
               else
                 (case prisma_note_update db (note_table w) noteId c t of
                    None \<Rightarrow> \<lparr>after = w, emitted = [], rejected = True\<rparr>
                  | Some tbl' \<Rightarrow>
                      let w1 = w\<lparr>note_table := tbl'\<rparr>
                      in finished w1
                           [io_to_emit w1 noteId ''note-updated''
                              (note_updated_payload c t (name u))])))"

text \<open>
  \<^verbatim>\<open>socket.on('disconnect', ...)\<close> (lines 166-175): \<^verbatim>\<open>roomPresence.forEach\<close> visits the
  entries in order. The callback deletes at most the entry it is visiting and changes no
  other room, so the rooms still to be visited are those of the Map as it was when the
  loop started.
\<close>

fun disconnect_forEach ::
  "AuthenticatedSocket \<Rightarrow> (string, (string, jsval) jsmap) jsmap \<Rightarrow> world \<times> emission list
     \<Rightarrow> world \<times> emission list" where
  "disconnect_forEach socket [] acc = acc"
| "disconnect_forEach socket ((noteId, room) # rest) (w, out) =
     (if Map_has room (socket_id socket)
      then (case handleLeaveNote socket noteId w of
              (w', out') \<Rightarrow> disconnect_forEach socket rest (w', out @ out'))
      else disconnect_forEach socket rest (w, out))"

definition disconnect :: "AuthenticatedSocket \<Rightarrow> world \<Rightarrow> result" where
  "disconnect socket w =
     (case disconnect_forEach socket (roomPresence w) (w, []) of (w', out) \<Rightarrow> finished w' out)"

subsection \<open>Events and runs\<close>

text \<open>The events a connection delivers to the server, \<^verbatim>\<open>note-update\<close> with the outcome
  of its database write.\<close>

datatype incoming =
    Join_note string
  | Leave_note string
  | Note_update string string "string option" write_outcome
  | Disconnect

fun handle :: "AuthenticatedSocket \<Rightarrow> incoming \<Rightarrow> world \<Rightarrow> result" where
  "handle socket (Join_note noteId) w = join_note socket noteId w"
| "handle socket (Leave_note noteId) w = leave_note socket noteId w"
| "handle socket (Note_update noteId c t db) w = note_update socket noteId c t db w"
| "handle socket Disconnect w = disconnect socket w"

text \<open>The state after a sequence of handlers, each taking effect in turn.\<close>

fun run :: "world \<Rightarrow> (AuthenticatedSocket \<times> incoming) list \<Rightarrow> world" where
  "run w [] = w"
| "run w ((socket, ev) # evs) = run (after (handle socket ev w)) evs"

subsection \<open>Notions the specification uses\<close>

text \<open>
  The specification speaks of the members of a room and of the rooms in which a session
  has a presence entry. Both are read off the registry.
\<close>

definition in_room :: "(string, (string, jsval) jsmap) jsmap \<Rightarrow> string \<Rightarrow> string \<Rightarrow> bool" where
  "in_room rp room sid = (case Map_get rp room of None \<Rightarrow> False | Some m \<Rightarrow> Map_has m sid)"

definition members_of :: "(string, (string, jsval) jsmap) jsmap \<Rightarrow> string \<Rightarrow> jsval list" where
  "members_of rp room = (case Map_get rp room of None \<Rightarrow> [] | Some m \<Rightarrow> Map_values m)"

definition rooms_of :: "(string, (string, jsval) jsmap) jsmap \<Rightarrow> string \<Rightarrow> string list" where
  "rooms_of rp sid = filter (\<lambda>room. in_room rp room sid) (map fst rp)"

definition rooms_nonempty :: "(string, (string, jsval) jsmap) jsmap \<Rightarrow> bool" where
  "rooms_nonempty rp = list_all (\<lambda>e. snd e \<noteq> []) rp"

text \<open>What leaving does to the entry of one room: the session's entry goes, and a room
  left without entries goes with it.\<close>

definition leave_entry :: "(string, jsval) jsmap option \<Rightarrow> string \<Rightarrow> (string, jsval) jsmap option" where
  "leave_entry e sid =
     (case e of None \<Rightarrow> None
      | Some m \<Rightarrow> if Map_delete m sid = [] then None else Some (Map_delete m sid))"

text \<open>One more invariant of the registry: no room lists a socket twice.\<close>

definition entries_distinct :: "(string, (string, jsval) jsmap) jsmap \<Rightarrow> bool" where
  "entries_distinct rp = list_all (\<lambda>e. distinct (map fst (snd e))) rp"

text \<open>
  A connection keeps the user it authenticated as: \<open>known who socket\<close> says that the
  socket, when it carries a user, carries the one that \<open>who\<close> gives for its id. In a run
  of such sockets every presence entry is the presence object of its connection's user.
\<close>

definition known :: "(string \<Rightarrow> socket_user) \<Rightarrow> AuthenticatedSocket \<Rightarrow> bool" where
  "known who socket = (case user socket of None \<Rightarrow> True | Some u \<Rightarrow> u = who (socket_id socket))"

definition entries_by :: "(string \<Rightarrow> socket_user) \<Rightarrow> (string, (string, jsval) jsmap) jsmap \<Rightarrow> bool" where
  "entries_by who rp =
     list_all (\<lambda>e. list_all (\<lambda>p. snd p = PresenceUser (who (fst p))) (snd e)) rp"

text \<open>
  An emission is the snapshot of a state when it is addressed to a room and carries the
  values of that room's Map, to the sockets then in the Socket.IO room.
\<close>

definition snapshot_of :: "world \<Rightarrow> emission \<Rightarrow> bool" where
  "snapshot_of w e =
     (case target e of
        To_socket sid \<Rightarrow> False
      | To_room r \<Rightarrow>
          (case Map_get (roomPresence w) r of
             None \<Rightarrow> False
           | Some room \<Rightarrow>
               payload e = presence_payload (Map_values room) \<and> recipients e = rooms w r))"

text \<open>
  The property names of an object, the value of one property, and the shape
  \<^verbatim>\<open>{users: [{k1, k2, k3}, ...]}\<close> of a payload for a given list of property names.
\<close>

fun object_keys :: "jsval \<Rightarrow> string list" where
  "object_keys (JObj kvs) = map fst kvs"
| "object_keys v = []"

fun obj_prop :: "jsval \<Rightarrow> string \<Rightarrow> jsval option" where
  "obj_prop (JObj kvs) k = map_of kvs k"
| "obj_prop v k = None"

fun snapshot_shape :: "string list \<Rightarrow> jsval \<Rightarrow> bool" where
  "snapshot_shape ks (JObj [(k, JArr us)]) =
     (k = ''users'' \<and> list_all (\<lambda>u. object_keys u = ks) us)"
| "snapshot_shape ks v = False"

subsection \<open>A concrete server\<close>

text \<open>
  Alice owns the note D. Alice and Bob each hold one connection; in \<open>scenario\<close> both open
  D and Alice's connection then drops.
\<close>

definition alice :: socket_user where
  "alice = \<lparr>userId = ''uA'', email = ''alice@example.org'', name = ''Alice''\<rparr>"

definition bob :: socket_user where
  "bob = \<lparr>userId = ''uB'', email = ''bob@example.org'', name = ''Bob''\<rparr>"

definition sockA :: AuthenticatedSocket where
  "sockA = \<lparr>socket_id = ''s1'', user = Some alice\<rparr>"

definition sockB :: AuthenticatedSocket where
  "sockB = \<lparr>socket_id = ''s2'', user = Some bob\<rparr>"

definition docD :: Note where
  "docD = \<lparr>ownerId = ''uA'', title = ''T'', content = ''C''\<rparr>"

definition world0 :: world where
  "world0 = \<lparr>note_table = [''D'' \<mapsto> docD], roomPresence = [], rooms = (\<lambda>_. [])\<rparr>"

definition scenario :: "(AuthenticatedSocket \<times> incoming) list" where
  "scenario = [(sockA, Join_note ''D''), (sockB, Join_note ''D''), (sockA, Disconnect)]"

text \<open>Bob alone has opened D; Alice and Bob both have.\<close>

definition only_bob :: "(AuthenticatedSocket \<times> incoming) list" where
  "only_bob = [(sockB, Join_note ''D'')]"

definition both_joined :: "(AuthenticatedSocket \<times> incoming) list" where
  "both_joined = [(sockA, Join_note ''D''), (sockB, Join_note ''D'')]"

text \<open>Alice alone has opened D; a second connection of Alice; the user of each connection.\<close>

definition alice_alone :: "(AuthenticatedSocket \<times> incoming) list" where
  "alice_alone = [(sockA, Join_note ''D'')]"

definition sockA2 :: AuthenticatedSocket where
  "sockA2 = \<lparr>socket_id = ''s3'', user = Some alice\<rparr>"

definition example_who :: "string \<Rightarrow> socket_user" where
  "example_who sid = (if sid = ''s2'' then bob else alice)"

section \<open>Lemmas\<close>

lemmas example_defs = alice_def bob_def sockA_def sockB_def docD_def world0_def

lemmas handler_defs = join_note_def leave_note_def handleLeaveNote_def note_update_def
  disconnect_def finished_def socket_emit_def io_to_emit_def socket_join_def socket_leave_def
  error_payload_def PresenceUser_def presence_payload_def prisma_note_update_def
  note_updated_payload_def Map_has_def Map_get_def Map_delete_def Map_values_def Map_size_def

subsection \<open>Map\<close>

lemma Map_get_set: "Map_get (Map_set m k v) k' = (if k' = k then Some v else Map_get m k')"
  by (induction m) (auto simp: Map_get_def)

lemma Map_get_delete: "Map_get (Map_delete m k) k' = (if k' = k then None else Map_get m k')"
  by (induction m) (auto simp: Map_get_def Map_delete_def)

lemma Map_has_get: "Map_has m k = (Map_get m k \<noteq> None)"
  by (induction m) (auto simp: Map_has_def Map_get_def)

lemma Map_keys_set: "fst ` set (Map_set m k v) = insert k (fst ` set m)"
  by (induction m) (auto simp: rev_image_eqI split: if_splits)

lemma Map_set_distinct: "distinct (map fst m) \<Longrightarrow> distinct (map fst (Map_set m k v))"
  by (induction m) (auto simp: Map_keys_set)

lemma Map_delete_distinct: "distinct (map fst m) \<Longrightarrow> distinct (map fst (Map_delete m k))"
  by (simp add: Map_delete_def distinct_map_filter)

lemma Map_set_overwrite: "Map_set (Map_set m k x) k v = Map_set m k v"
  by (induction m) auto

lemma Map_set_not_Nil: "Map_set m k v \<noteq> []"
  by (cases m) (auto split: if_splits)

lemma Map_has_first: "Map_has ((k, v) # m) k"
  by (simp add: Map_has_def)

lemma Map_has_set: "Map_has (Map_set m k v) k' = (k' = k \<or> Map_has m k')"
  by (auto simp: Map_has_get Map_get_set)

lemma Map_has_delete: "Map_has (Map_delete m k) k' = (k' \<noteq> k \<and> Map_has m k')"
  by (auto simp: Map_has_get Map_get_delete)

lemma Map_get_in: "distinct (map fst m) \<Longrightarrow> (k, v) \<in> set m \<Longrightarrow> Map_get m k = Some v"
  by (simp add: Map_get_def)

lemma Map_get_mem: "Map_get m k = Some v \<Longrightarrow> (k, v) \<in> set m"
  by (simp add: Map_get_def map_of_SomeD)

lemma list_all_Map_set: "list_all P m \<Longrightarrow> P (k, v) \<Longrightarrow> list_all P (Map_set m k v)"
  by (induction m) auto

lemma list_all_Map_delete: "list_all P m \<Longrightarrow> list_all P (Map_delete m k)"
  by (simp add: Map_delete_def list_all_iff)

subsection \<open>The handlers seen through \<open>Map_get\<close>\<close>

lemma handleLeaveNote_get:
  "Map_get (roomPresence (fst (handleLeaveNote socket noteId w))) r =
     (if r = noteId then leave_entry (Map_get (roomPresence w) noteId) (socket_id socket)
      else Map_get (roomPresence w) r)"
  by (auto simp: handleLeaveNote_def socket_leave_def leave_entry_def Let_def Map_size_def
        Map_get_set Map_get_delete split: option.splits)

lemma handleLeaveNote_distinct:
  "distinct (map fst (roomPresence w)) \<Longrightarrow>
   distinct (map fst (roomPresence (fst (handleLeaveNote socket noteId w))))"
  by (auto simp: handleLeaveNote_def socket_leave_def Let_def Map_set_distinct Map_delete_distinct
        split: option.splits)

lemma handleLeaveNote_nonempty:
  "rooms_nonempty (roomPresence w) \<Longrightarrow>
   rooms_nonempty (roomPresence (fst (handleLeaveNote socket noteId w)))"
  by (auto simp: handleLeaveNote_def socket_leave_def Let_def rooms_nonempty_def Map_size_def
        list_all_Map_set list_all_Map_delete split: option.splits)

lemma join_note_as_resume:
  "join_note socket noteId w =
     (case user socket of
        None \<Rightarrow> finished w []
      | Some u \<Rightarrow> join_note_resume socket u noteId (note_table w noteId) w)"
  by (simp add: join_note_def join_note_resume_def split: option.splits)

lemma join_note_resume_registers:
  "in_room (roomPresence (after (join_note_resume socket u noteId (Some d) w))) noteId
     (socket_id socket)"
  using Map_has_get [of "roomPresence w" noteId]
  by (auto simp: join_note_resume_def socket_join_def finished_def Let_def in_room_def
      Map_get_set Map_has_set Map_has_first split: option.splits if_splits)

lemma join_note_get:
  "user socket = Some u \<Longrightarrow> note_table w noteId = Some d \<Longrightarrow>
   Map_get (roomPresence (after (join_note socket noteId w))) r =
     (if r = noteId
      then Some (Map_set (case Map_get (roomPresence w) noteId of None \<Rightarrow> [] | Some m \<Rightarrow> m)
                   (socket_id socket) (PresenceUser u))
      else Map_get (roomPresence w) r)"
  by (auto simp: join_note_def socket_join_def finished_def Let_def Map_get_set Map_has_get
        split: option.splits)

lemma join_note_distinct:
  "distinct (map fst (roomPresence w)) \<Longrightarrow>
   distinct (map fst (roomPresence (after (join_note socket noteId w))))"
  by (auto simp: join_note_def socket_join_def finished_def Let_def Map_set_distinct
        split: option.splits)

lemma join_note_nonempty:
  "rooms_nonempty (roomPresence w) \<Longrightarrow>
   rooms_nonempty (roomPresence (after (join_note socket noteId w)))"
  by (auto simp: join_note_def socket_join_def finished_def Let_def rooms_nonempty_def
        Map_set_overwrite list_all_Map_set Map_set_not_Nil Map_get_set split: option.splits)

lemma note_update_roomPresence:
  "roomPresence (after (note_update socket noteId c t db w)) = roomPresence w"
  by (auto simp: note_update_def finished_def Let_def split: option.splits)


subsection \<open>The loop of the disconnect handler\<close>

lemma forEach_get:
  "distinct (map fst l) \<Longrightarrow>
   Map_get (roomPresence (fst (disconnect_forEach socket l (w, out)))) r =
     (if r \<in> set (map fst (filter (\<lambda>e. Map_has (snd e) (socket_id socket)) l))
      then leave_entry (Map_get (roomPresence w) r) (socket_id socket)
      else Map_get (roomPresence w) r)"
proof (induction l arbitrary: w out)
  case Nil
  then show ?case by simp
next
  case (Cons e rest)
  obtain n room where e: "e = (n, room)" by (cases e)
  from Cons.prems e have d: "distinct (map fst rest)"
    by simp
  from Cons.prems e have "n \<notin> fst ` set rest"
    by simp
  then have fresh: "n \<notin> fst ` {x \<in> set rest. Map_has (snd x) (socket_id socket)}"
    by blast
  show ?case
  proof (cases "Map_has room (socket_id socket)")
    case True
    obtain w' out' where h: "handleLeaveNote socket n w = (w', out')"
      by (cases "handleLeaveNote socket n w")
    have g: "Map_get (roomPresence w') x =
        (if x = n then leave_entry (Map_get (roomPresence w) n) (socket_id socket)
         else Map_get (roomPresence w) x)" for x
      using handleLeaveNote_get [of socket n w x] h by simp
    show ?thesis
      using True fresh by (simp add: e h g Cons.IH [OF d])
  next
    case False
    then show ?thesis
      by (simp add: e Cons.IH [OF d])
  qed
qed

lemma forEach_distinct:
  "distinct (map fst (roomPresence w)) \<Longrightarrow>
   distinct (map fst (roomPresence (fst (disconnect_forEach socket l (w, out)))))"
proof (induction l arbitrary: w out)
  case Nil
  then show ?case by simp
next
  case (Cons e rest)
  obtain n room where e: "e = (n, room)" by (cases e)
  obtain w' out' where h: "handleLeaveNote socket n w = (w', out')"
    by (cases "handleLeaveNote socket n w")
  have "distinct (map fst (roomPresence w'))"
    using handleLeaveNote_distinct [OF Cons.prems, of socket n] h by simp
  then show ?case
    using Cons.IH Cons.prems by (simp add: e h)
qed

lemma forEach_nonempty:
  "rooms_nonempty (roomPresence w) \<Longrightarrow>
   rooms_nonempty (roomPresence (fst (disconnect_forEach socket l (w, out))))"
proof (induction l arbitrary: w out)
  case Nil
  then show ?case by simp
next
  case (Cons e rest)
  obtain n room where e: "e = (n, room)" by (cases e)
  obtain w' out' where h: "handleLeaveNote socket n w = (w', out')"
    by (cases "handleLeaveNote socket n w")
  have "rooms_nonempty (roomPresence w')"
    using handleLeaveNote_nonempty [OF Cons.prems, of socket n] h by simp
  then show ?case
    using Cons.IH Cons.prems by (simp add: e h)
qed

lemma rooms_of_filter:
  assumes "distinct (map fst rp)"
  shows "rooms_of rp sid = map fst (filter (\<lambda>e. Map_has (snd e) sid) rp)"
proof -
  have "in_room rp (fst e) sid = Map_has (snd e) sid" if "e \<in> set rp" for e
    using that assms Map_get_in [of rp "fst e" "snd e"] by (simp add: in_room_def)
  then have "filter (\<lambda>room. in_room rp room sid) (map fst rp) =
             map fst (filter (\<lambda>e. Map_has (snd e) sid) rp)"
    by (simp add: filter_map comp_def cong: filter_cong)
  then show ?thesis by (simp add: rooms_of_def)
qed

lemma set_rooms_of: "set (rooms_of rp sid) = {room. in_room rp room sid}"
  by (auto simp: rooms_of_def in_room_def Map_get_def split: option.splits
      dest: map_of_SomeD intro: rev_image_eqI)

lemma in_room_leave_entry:
  "(case leave_entry e sid of None \<Rightarrow> False | Some m \<Rightarrow> Map_has m sid') =
   (case e of None \<Rightarrow> False | Some m \<Rightarrow> sid' \<noteq> sid \<and> Map_has m sid')"
proof (cases e)
  case None
  then show ?thesis by (simp add: leave_entry_def)
next
  case (Some m)
  have "Map_delete m sid = [] \<Longrightarrow> \<not> (sid' \<noteq> sid \<and> Map_has m sid')"
    using Map_has_delete [of m sid sid'] by (simp add: Map_has_def)
  then show ?thesis
    using Some by (auto simp: leave_entry_def Map_has_delete)
qed

lemma in_room_leave:
  "in_room (roomPresence (fst (handleLeaveNote socket noteId w))) r sid =
   (in_room (roomPresence w) r sid \<and> \<not> (r = noteId \<and> sid = socket_id socket))"
  using in_room_leave_entry [where e = "Map_get (roomPresence w) noteId"
      and sid = "socket_id socket" and sid' = sid]
  by (auto simp: in_room_def handleLeaveNote_get split: option.splits)

lemma in_room_disconnect:
  assumes "distinct (map fst (roomPresence w))"
  shows "in_room (roomPresence (after (disconnect socket w))) r sid =
         (in_room (roomPresence w) r sid \<and> sid \<noteq> socket_id socket)"
proof -
  have a: "after (disconnect socket w) = fst (disconnect_forEach socket (roomPresence w) (w, []))"
    by (simp add: disconnect_def finished_def split: prod.splits)
  have b: "(r \<in> set (map fst (filter (\<lambda>e. Map_has (snd e) (socket_id socket)) (roomPresence w)))) =
           in_room (roomPresence w) r (socket_id socket)"
    using set_rooms_of [of "roomPresence w" "socket_id socket"]
    by (simp add: rooms_of_filter [OF assms, symmetric])
  show ?thesis
    using in_room_leave_entry [where e = "Map_get (roomPresence w) r"
        and sid = "socket_id socket" and sid' = sid]
    unfolding a in_room_def forEach_get [OF assms] b
    by (auto simp: in_room_def split: option.splits)
qed

subsection \<open>Invariants of runs\<close>

lemma after_leave_note: "after (leave_note socket noteId w) = fst (handleLeaveNote socket noteId w)"
  by (simp add: leave_note_def finished_def split: prod.splits)

lemma after_disconnect:
  "after (disconnect socket w) = fst (disconnect_forEach socket (roomPresence w) (w, []))"
  by (simp add: disconnect_def finished_def split: prod.splits)

lemma handle_nonempty:
  "rooms_nonempty (roomPresence w) \<Longrightarrow>
   rooms_nonempty (roomPresence (after (handle socket ev w)))"
  by (cases ev)
     (simp_all add: join_note_nonempty after_leave_note handleLeaveNote_nonempty
        note_update_roomPresence after_disconnect forEach_nonempty)

lemma handle_distinct:
  "distinct (map fst (roomPresence w)) \<Longrightarrow>
   distinct (map fst (roomPresence (after (handle socket ev w))))"
  by (cases ev)
     (simp_all add: join_note_distinct after_leave_note handleLeaveNote_distinct
        note_update_roomPresence after_disconnect forEach_distinct)

lemma run_nonempty:
  "rooms_nonempty (roomPresence w) \<Longrightarrow> rooms_nonempty (roomPresence (run w evs))"
  by (induction evs arbitrary: w) (auto simp: handle_nonempty)

lemma run_distinct:
  "distinct (map fst (roomPresence w)) \<Longrightarrow> distinct (map fst (roomPresence (run w evs)))"
  by (induction evs arbitrary: w) (auto simp: handle_distinct)

lemma nonempty_has_members:
  assumes "rooms_nonempty rp"
  shows "Map_has rp r = (members_of rp r \<noteq> [])"
proof (cases "Map_get rp r")
  case None
  then show ?thesis by (simp add: Map_has_get members_of_def)
next
  case (Some m)
  then have "(r, m) \<in> set rp" by (rule Map_get_mem)
  with assms have "m \<noteq> []" by (auto simp: rooms_nonempty_def list_all_iff)
  with Some show ?thesis by (simp add: Map_has_get members_of_def Map_values_def)
qed

lemma scenario_run:
  "roomPresence (run world0 scenario) = [(''D'', [(''s2'', PresenceUser bob)])]"
  by (simp add: scenario_def example_defs handler_defs)


subsection \<open>The rooms after a leave\<close>

lemma rooms_handleLeaveNote:
  "rooms (fst (handleLeaveNote socket noteId w)) =
   (rooms w)(noteId := removeAll (socket_id socket) (rooms w noteId))"
  by (auto simp: handleLeaveNote_def socket_leave_def Let_def split: option.splits)

subsection \<open>No socket twice in a room\<close>

lemma handleLeaveNote_entries:
  "entries_distinct (roomPresence w) \<Longrightarrow>
   entries_distinct (roomPresence (fst (handleLeaveNote socket noteId w)))"
proof -
  assume a: "entries_distinct (roomPresence w)"
  have "distinct (map fst room)" if "Map_get (roomPresence w) noteId = Some room" for room
    using a Map_get_mem [OF that] by (auto simp: entries_distinct_def list_all_iff)
  then show ?thesis
    using a
    by (auto simp: handleLeaveNote_def socket_leave_def Let_def entries_distinct_def
        list_all_Map_set list_all_Map_delete Map_delete_distinct split: option.splits)
qed

lemma forEach_entries:
  "entries_distinct (roomPresence w) \<Longrightarrow>
   entries_distinct (roomPresence (fst (disconnect_forEach socket l (w, out))))"
proof (induction l arbitrary: w out)
  case Nil
  then show ?case by simp
next
  case (Cons e rest)
  obtain n room where e: "e = (n, room)" by (cases e)
  obtain w' out' where h: "handleLeaveNote socket n w = (w', out')"
    by (cases "handleLeaveNote socket n w")
  have "entries_distinct (roomPresence w')"
    using handleLeaveNote_entries [OF Cons.prems, of socket n] h by simp
  then show ?case
    using Cons.IH Cons.prems by (simp add: e h)
qed

lemma join_note_entries:
  assumes a: "entries_distinct (roomPresence w)"
  shows "entries_distinct (roomPresence (after (join_note socket noteId w)))"
proof -
  have "distinct (map fst room)" if "Map_get (roomPresence w) noteId = Some room" for room
    using a Map_get_mem [OF that] by (auto simp: entries_distinct_def list_all_iff)
  then show ?thesis
    using a
    by (auto simp: join_note_def socket_join_def finished_def Let_def entries_distinct_def
        Map_set_overwrite list_all_Map_set Map_set_distinct Map_get_set split: option.splits)
qed

lemma handle_entries:
  "entries_distinct (roomPresence w) \<Longrightarrow>
   entries_distinct (roomPresence (after (handle socket ev w)))"
  by (cases ev)
     (simp_all add: join_note_entries after_leave_note handleLeaveNote_entries
        note_update_roomPresence after_disconnect forEach_entries)

lemma run_entries:
  "entries_distinct (roomPresence w) \<Longrightarrow> entries_distinct (roomPresence (run w evs))"
  by (induction evs arbitrary: w) (auto simp: handle_entries)

lemma one_entry:
  "distinct (map fst m) \<Longrightarrow> Map_has m k \<Longrightarrow> length (filter (\<lambda>e. fst e = k) m) = 1"
proof (induction m)
  case Nil
  then show ?case by (simp add: Map_has_def)
next
  case (Cons e m)
  show ?case
  proof (cases "fst e = k")
    case True
    with Cons.prems have "k \<notin> fst ` set m" by auto
    then have "filter (\<lambda>e. fst e = k) m = []"
      by (auto simp: filter_empty_conv)
    with True show ?thesis by simp
  next
    case False
    with Cons show ?thesis by (simp add: Map_has_def)
  qed
qed

lemma join_note_twice:
  assumes "user socket = Some u" and "note_table w noteId = Some d"
  shows "after (join_note socket noteId (after (join_note socket noteId w))) =
         after (join_note socket noteId w)"
  using assms
  by (auto simp: join_note_def socket_join_def finished_def Let_def Map_get_set Map_has_get
      Map_set_overwrite split: option.splits)

subsection \<open>The concrete server, evaluated\<close>

lemma only_bob_run:
  "roomPresence (run world0 only_bob) = [(''D'', [(''s2'', PresenceUser bob)])]
   \<and> note_table (run world0 only_bob) = [''D'' \<mapsto> docD]
   \<and> rooms (run world0 only_bob) ''D'' = [''s2'']"
  by (simp add: only_bob_def example_defs handler_defs)

lemma both_joined_run:
  "roomPresence (run world0 both_joined) =
     [(''D'', [(''s1'', PresenceUser alice), (''s2'', PresenceUser bob)])]
   \<and> note_table (run world0 both_joined) = [''D'' \<mapsto> docD]
   \<and> rooms (run world0 both_joined) ''D'' = [''s1'', ''s2'']"
  by (simp add: both_joined_def example_defs handler_defs)

lemma note_update_write_fails:
  assumes "user socket = Some u" and "note_table w noteId = Some d" and "ownerId d = userId u"
  shows "note_update socket noteId c t Write_fails w = \<lparr>after = w, emitted = [], rejected = True\<rparr>"
  using assms by (simp add: note_update_def prisma_note_update_def)

lemma note_update_write_succeeds:
  assumes "user socket = Some u" and "note_table w noteId = Some d" and "ownerId d = userId u"
  shows "note_update socket noteId c t Write_succeeds w =
     \<lparr>after = w\<lparr>note_table := (note_table w)(noteId \<mapsto>
                  d\<lparr>content := c, title := (case t of None \<Rightarrow> title d | Some t' \<Rightarrow> t')\<rparr>)\<rparr>,
      emitted = [\<lparr>target = To_room noteId, recipients = rooms w noteId,
                  event = ''note-updated'', payload = note_updated_payload c t (name u)\<rparr>],
      rejected = False\<rparr>"
  using assms
  by (simp add: note_update_def prisma_note_update_def finished_def io_to_emit_def)

subsection \<open>Every presence-update is a snapshot\<close>

lemma handleLeaveNote_snapshot:
  assumes "e \<in> set (snd (handleLeaveNote socket noteId w))"
  shows "event e = ''presence-update'' \<and> target e = To_room noteId
       \<and> snapshot_of (fst (handleLeaveNote socket noteId w)) e"
  using assms
  by (auto simp: handleLeaveNote_def socket_leave_def Let_def io_to_emit_def snapshot_of_def
      Map_get_set split: option.splits if_splits)

lemma join_note_snapshot:
  assumes "e \<in> set (emitted (join_note socket noteId w))" and "event e = ''presence-update''"
  shows "snapshot_of (after (join_note socket noteId w)) e"
  using assms
  by (auto simp: join_note_def socket_join_def Let_def io_to_emit_def socket_emit_def
      finished_def snapshot_of_def Map_get_set split: option.splits if_splits)

lemma note_update_no_snapshot:
  "e \<in> set (emitted (note_update socket noteId c t db w)) \<Longrightarrow> event e \<noteq> ''presence-update''"
  by (auto simp: note_update_def io_to_emit_def socket_emit_def finished_def Let_def
      split: option.splits if_splits)

lemma forEach_rooms:
  "rooms (fst (disconnect_forEach socket l (w, out))) r =
     (if r \<in> set (map fst (filter (\<lambda>e. Map_has (snd e) (socket_id socket)) l))
      then removeAll (socket_id socket) (rooms w r) else rooms w r)"
proof (induction l arbitrary: w out)
  case Nil
  then show ?case by simp
next
  case (Cons e rest)
  obtain n room where e: "e = (n, room)" by (cases e)
  obtain w' out' where h: "handleLeaveNote socket n w = (w', out')"
    by (cases "handleLeaveNote socket n w")
  have g: "rooms w' = (rooms w)(n := removeAll (socket_id socket) (rooms w n))"
    using rooms_handleLeaveNote [of socket n w] h by simp
  show ?case
    by (simp add: e h g Cons.IH)
qed

lemma snapshot_of_stable:
  assumes "snapshot_of w e" and "target e = To_room n"
    and "Map_get (roomPresence w') n = Map_get (roomPresence w) n"
    and "rooms w' n = rooms w n"
  shows "snapshot_of w' e"
  using assms by (auto simp: snapshot_of_def split: option.splits)

lemma forEach_snapshot:
  "distinct (map fst l) \<Longrightarrow> e \<in> set (snd (disconnect_forEach socket l (w, out))) \<Longrightarrow>
   e \<in> set out \<or>
   (event e = ''presence-update'' \<and> snapshot_of (fst (disconnect_forEach socket l (w, out))) e)"
proof (induction l arbitrary: w out)
  case Nil
  then show ?case by simp
next
  case (Cons x rest)
  obtain n room where x: "x = (n, room)" by (cases x)
  from Cons.prems(1) x have d: "distinct (map fst rest)" and "n \<notin> fst ` set rest"
    by simp_all
  then have fresh: "n \<notin> set (map fst (filter (\<lambda>e. Map_has (snd e) (socket_id socket)) rest))"
    by auto
  show ?case
  proof (cases "Map_has room (socket_id socket)")
    case False
    then show ?thesis
      using Cons.IH [OF d, of w out] Cons.prems(2) by (simp add: x)
  next
    case True
    obtain w' out' where h: "handleLeaveNote socket n w = (w', out')"
      by (cases "handleLeaveNote socket n w")
    let ?fin = "disconnect_forEach socket rest (w', out @ out')"
    have step: "disconnect_forEach socket (x # rest) (w, out) = ?fin"
      using True by (simp add: x h)
    from Cons.prems(2) have "e \<in> set (snd ?fin)" by (simp add: step)
    from Cons.IH [OF d this]
    consider "e \<in> set out" | "e \<in> set out'"
      | "event e = ''presence-update'' \<and> snapshot_of (fst ?fin) e"
      by auto
    then show ?thesis
    proof cases
      case 1
      then show ?thesis by simp
    next
      case 2
      then have a: "event e = ''presence-update'' \<and> target e = To_room n \<and> snapshot_of w' e"
        using handleLeaveNote_snapshot [of e socket n w] h by simp
      have "Map_get (roomPresence (fst ?fin)) n = Map_get (roomPresence w') n"
        using fresh by (simp add: forEach_get [OF d])
      moreover have "rooms (fst ?fin) n = rooms w' n"
        using fresh by (simp add: forEach_rooms)
      ultimately have "snapshot_of (fst ?fin) e"
        using a snapshot_of_stable by blast
      with a show ?thesis by (simp add: step)
    next
      case 3
      then show ?thesis by (simp add: step)
    qed
  qed
qed

lemma emitted_leave_note:
  "emitted (leave_note socket noteId w) = snd (handleLeaveNote socket noteId w)"
  by (simp add: leave_note_def finished_def split: prod.splits)

lemma emitted_disconnect:
  "emitted (disconnect socket w) = snd (disconnect_forEach socket (roomPresence w) (w, []))"
  by (simp add: disconnect_def finished_def split: prod.splits)

lemma handle_snapshot:
  assumes "distinct (map fst (roomPresence w))"
    and "e \<in> set (emitted (handle socket ev w))" and "event e = ''presence-update''"
  shows "snapshot_of (after (handle socket ev w)) e"
proof (cases ev)
  case (Join_note n)
  then show ?thesis using assms(2,3) by (simp add: join_note_snapshot)
next
  case (Leave_note n)
  then show ?thesis
    using assms(2) handleLeaveNote_snapshot [of e socket n w]
    by (simp add: emitted_leave_note after_leave_note)
next
  case (Note_update n c t db)
  then show ?thesis using assms(2,3) note_update_no_snapshot [of e socket n c t db w] by simp
next
  case Disconnect
  then show ?thesis
    using assms(2) forEach_snapshot [OF assms(1), of e socket w "[]"]
    by (simp add: emitted_disconnect after_disconnect)
qed

subsection \<open>Every entry is the presence object of its connection\<close>

lemma handleLeaveNote_entries_by:
  "entries_by who (roomPresence w) \<Longrightarrow>
   entries_by who (roomPresence (fst (handleLeaveNote socket noteId w)))"
proof -
  assume a: "entries_by who (roomPresence w)"
  have "list_all (\<lambda>p. snd p = PresenceUser (who (fst p))) room"
    if "Map_get (roomPresence w) noteId = Some room" for room
    using a Map_get_mem [OF that] by (auto simp: entries_by_def list_all_iff)
  then show ?thesis
    using a
    by (auto simp: handleLeaveNote_def socket_leave_def Let_def entries_by_def
        list_all_Map_set list_all_Map_delete split: option.splits)
qed

lemma forEach_entries_by:
  "entries_by who (roomPresence w) \<Longrightarrow>
   entries_by who (roomPresence (fst (disconnect_forEach socket l (w, out))))"
proof (induction l arbitrary: w out)
  case Nil
  then show ?case by simp
next
  case (Cons e rest)
  obtain n room where e: "e = (n, room)" by (cases e)
  obtain w' out' where h: "handleLeaveNote socket n w = (w', out')"
    by (cases "handleLeaveNote socket n w")
  have "entries_by who (roomPresence w')"
    using handleLeaveNote_entries_by [OF Cons.prems, of socket n] h by simp
  then show ?case
    using Cons.IH Cons.prems by (simp add: e h)
qed

lemma join_note_entries_by:
  assumes a: "entries_by who (roomPresence w)" and k: "known who socket"
  shows "entries_by who (roomPresence (after (join_note socket noteId w)))"
proof -
  have "list_all (\<lambda>p. snd p = PresenceUser (who (fst p))) room"
    if "Map_get (roomPresence w) noteId = Some room" for room
    using a Map_get_mem [OF that] by (auto simp: entries_by_def list_all_iff)
  then show ?thesis
    using a k
    by (auto simp: join_note_def socket_join_def finished_def Let_def entries_by_def known_def
        Map_set_overwrite list_all_Map_set Map_get_set split: option.splits)
qed

lemma handle_entries_by:
  "entries_by who (roomPresence w) \<Longrightarrow> known who socket \<Longrightarrow>
   entries_by who (roomPresence (after (handle socket ev w)))"
  by (cases ev)
     (simp_all add: join_note_entries_by after_leave_note handleLeaveNote_entries_by
        note_update_roomPresence after_disconnect forEach_entries_by)

lemma run_entries_by:
  "entries_by who (roomPresence w) \<Longrightarrow> list_all (\<lambda>x. known who (fst x)) evs \<Longrightarrow>
   entries_by who (roomPresence (run w evs))"
  by (induction evs arbitrary: w) (auto simp: handle_entries_by)

lemma values_by:
  "list_all (\<lambda>p. snd p = PresenceUser (who (fst p))) room \<Longrightarrow>
   Map_values room = map (\<lambda>sid. PresenceUser (who sid)) (map fst room)"
  by (induction room) (auto simp: Map_values_def)

lemma two_in_filter:
  assumes "x \<in> set xs" and "y \<in> set xs" and "x \<noteq> y" and "P x" and "P y"
  shows "2 \<le> length (filter P xs)"
proof -
  have "{x, y} \<subseteq> set (filter P xs)" using assms by simp
  then have "card {x, y} \<le> card (set (filter P xs))"
    by (intro card_mono) simp_all
  also have "\<dots> \<le> length (filter P xs)" by (rule card_length)
  finally show ?thesis using assms(3) by simp
qed

lemma reached_invariants:
  assumes "roomPresence w0 = []" and "list_all (\<lambda>x. known who (fst x)) evs"
  shows "distinct (map fst (roomPresence (run w0 evs)))
       \<and> entries_distinct (roomPresence (run w0 evs))
       \<and> entries_by who (roomPresence (run w0 evs))"
proof -
  have "distinct (map fst (roomPresence w0))" "entries_distinct (roomPresence w0)"
    "entries_by who (roomPresence w0)"
    using assms(1) by (simp_all add: entries_distinct_def entries_by_def)
  then show ?thesis
    using assms(2) by (simp add: run_distinct run_entries run_entries_by)
qed

lemma reached_room:
  assumes "roomPresence w0 = []" and "list_all (\<lambda>x. known who (fst x)) evs"
    and "known who socket"
    and "Map_get (roomPresence (after (handle socket ev (run w0 evs)))) r = Some room"
  shows "distinct (map fst room)
       \<and> Map_values room = map (\<lambda>sid. PresenceUser (who sid)) (map fst room)"
proof -
  let ?w' = "after (handle socket ev (run w0 evs))"
  note inv = reached_invariants [OF assms(1,2)]
  have ed: "entries_distinct (roomPresence ?w')"
    using inv by (simp add: handle_entries)
  have eb: "entries_by who (roomPresence ?w')"
    using inv assms(3) by (simp add: handle_entries_by)
  have mem: "(r, room) \<in> set (roomPresence ?w')"
    using assms(4) by (rule Map_get_mem)
  have "distinct (map fst room)"
    using ed mem by (auto simp: entries_distinct_def list_all_iff)
  moreover have "list_all (\<lambda>p. snd p = PresenceUser (who (fst p))) room"
    using eb mem by (auto simp: entries_by_def list_all_iff)
  ultimately show ?thesis by (simp add: values_by)
qed

lemma reached_snapshot:
  assumes "roomPresence w0 = []" and "list_all (\<lambda>x. known who (fst x)) evs"
    and "known who socket"
    and "e \<in> set (emitted (handle socket ev (run w0 evs)))"
    and "event e = ''presence-update''"
  shows "\<exists>r room. target e = To_room r
       \<and> Map_get (roomPresence (after (handle socket ev (run w0 evs)))) r = Some room
       \<and> distinct (map fst room)
       \<and> recipients e = rooms (after (handle socket ev (run w0 evs))) r
       \<and> payload e = presence_payload (map (\<lambda>sid. PresenceUser (who sid)) (map fst room))"
proof -
  let ?w' = "after (handle socket ev (run w0 evs))"
  have "distinct (map fst (roomPresence (run w0 evs)))"
    using reached_invariants [OF assms(1,2)] by simp
  then have "snapshot_of ?w' e"
    using assms(4,5) by (rule handle_snapshot)
  then obtain r room where r: "target e = To_room r"
    and g: "Map_get (roomPresence ?w') r = Some room"
    and p: "payload e = presence_payload (Map_values room)"
    and c: "recipients e = rooms ?w' r"
    by (auto simp: snapshot_of_def split: target.splits option.splits)
  from reached_room [OF assms(1,2,3) g] r g p c show ?thesis
    by auto
qed

lemma snapshot_shape_presence:
  "snapshot_shape [''odId'', ''name'', ''email'']
     (presence_payload (map (\<lambda>sid. PresenceUser (who sid)) sids))"
  by (simp add: presence_payload_def PresenceUser_def list_all_iff)

lemma known_examples:
  "known example_who sockA" "known example_who sockB" "known example_who sockA2"
  by (simp_all add: known_def example_who_def sockA_def sockB_def sockA2_def)

lemma bob_joins_alice:
  "roomPresence (after (handle sockB (Join_note ''D'') (run world0 alice_alone))) =
     [(''D'', [(''s1'', PresenceUser alice), (''s2'', PresenceUser bob)])]
   \<and> emitted (handle sockB (Join_note ''D'') (run world0 alice_alone)) =
     [\<lparr>target = To_room ''D'', recipients = [''s1'', ''s2''], event = ''presence-update'',
       payload = presence_payload [PresenceUser alice, PresenceUser bob]\<rparr>]"
  by (simp add: alice_alone_def example_defs handler_defs)

lemma second_tab_joins:
  "roomPresence (after (handle sockA2 (Join_note ''D'') (run world0 alice_alone))) =
     [(''D'', [(''s1'', PresenceUser alice), (''s3'', PresenceUser alice)])]
   \<and> emitted (handle sockA2 (Join_note ''D'') (run world0 alice_alone)) =
     [\<lparr>target = To_room ''D'', recipients = [''s1'', ''s3''], event = ''presence-update'',
       payload = presence_payload [PresenceUser alice, PresenceUser alice]\<rparr>]"
  by (simp add: alice_alone_def example_defs handler_defs sockA2_def)

section \<open>The claims\<close>

text \<open>
  C1. A note-update for a note owned by user A, sent by an authenticated session whose
  userId is not A, leaves the state (so the stored content and title of the note)
  unchanged, emits no \<^verbatim>\<open>note-updated\<close>, and emits exactly one event: an
  \<^verbatim>\<open>error\<close> addressed to the sending socket alone.
\<close>

theorem non_owner_update_discarded:
  assumes "note_table w noteId = Some d" and "user socket = Some u" and "userId u \<noteq> ownerId d"
  shows "after (note_update socket noteId c t db w) = w
       \<and> note_table (after (note_update socket noteId c t db w)) noteId = Some d
       \<and> filter (\<lambda>e. event e = ''note-updated'') (emitted (note_update socket noteId c t db w)) = []
       \<and> emitted (note_update socket noteId c t db w) =
           [\<lparr>target = To_socket (socket_id socket), recipients = [socket_id socket],
             event = ''error'', payload = error_payload ''Only the owner can edit this note''\<rparr>]"
  using assms by (auto simp: note_update_def finished_def socket_emit_def)

theorem non_owner_update_discarded_witness:
  "note_table world0 ''D'' = Some docD \<and> user sockB = Some bob \<and> userId bob \<noteq> ownerId docD
   \<and> after (note_update sockB ''D'' ''X'' None Write_succeeds world0) = world0
   \<and> emitted (note_update sockB ''D'' ''X'' None Write_succeeds world0) =
       [\<lparr>target = To_socket ''s2'', recipients = [''s2''], event = ''error'',
         payload = JObj [(''message'', JStr ''Only the owner can edit this note'')]\<rparr>]"
proof -
  have h1: "note_table world0 ''D'' = Some docD" by (simp add: world0_def)
  have h2: "user sockB = Some bob" by (simp add: sockB_def)
  have h3: "userId bob \<noteq> ownerId docD" by (simp add: bob_def docD_def)
  show ?thesis
    using h1 h2 h3 non_owner_update_discarded [OF h1 h2 h3, of "''X''" None Write_succeeds]
    by (simp add: sockB_def error_payload_def)
qed

text \<open>
  C2. Starting from the empty registry, after any sequence of events a room key is in
  the registry exactly when the room has members. The statement holds after every event,
  so a room emptied by an event is gone when that event's handler returns.
\<close>

theorem registry_has_no_empty_room:
  assumes "roomPresence w = []"
  shows "Map_has (roomPresence (run w evs)) r = (members_of (roomPresence (run w evs)) r \<noteq> [])"
proof -
  have "rooms_nonempty (roomPresence w)"
    using assms by (simp add: rooms_nonempty_def)
  then have "rooms_nonempty (roomPresence (run w evs))"
    by (rule run_nonempty)
  then show ?thesis by (rule nonempty_has_members)
qed

theorem registry_has_no_empty_room_witness:
  "roomPresence world0 = []
   \<and> Map_has (roomPresence (run world0 scenario)) ''D''
   \<and> members_of (roomPresence (run world0 scenario)) ''D'' = [PresenceUser bob]
   \<and> \<not> Map_has (roomPresence (run world0 (scenario @ [(sockB, Leave_note ''D'')]))) ''D''"
proof -
  have h: "roomPresence world0 = []" by (simp add: world0_def)
  have "members_of (roomPresence (run world0 scenario)) ''D'' = [PresenceUser bob]"
    by (simp add: scenario_run members_of_def Map_get_def Map_values_def)
  moreover have "members_of (roomPresence (run world0 (scenario @ [(sockB, Leave_note ''D'')]))) ''D'' = []"
    by (simp add: scenario_def example_defs handler_defs members_of_def)
  ultimately show ?thesis
    using h registry_has_no_empty_room [OF h, of scenario "''D''"]
      registry_has_no_empty_room [OF h, of "scenario @ [(sockB, Leave_note ''D'')]" "''D''"]
    by simp
qed

text \<open>
  C3. The claim fails when a socket's own \<^verbatim>\<open>disconnect\<close> or \<^verbatim>\<open>leave-note\<close> overtakes its
  \<^verbatim>\<open>join-note\<close>. Alice's socket sends \<^verbatim>\<open>join-note\<close> for D on the fresh server; the
  lookup is under way when the socket closes. The \<^verbatim>\<open>disconnect\<close> handler runs at once and
  finds no entry to remove; the continuation of \<^verbatim>\<open>join-note\<close> then registers the
  socket. The session has joined and then disconnected, and its entry stays in the room
  of D. The same happens when \<^verbatim>\<open>leave-note\<close> for D arrives in place of the
  \<^verbatim>\<open>disconnect\<close>.
\<close>

theorem overtaken_join_leaves_entry:
  "user sockA = Some alice
   \<and> note_table world0 ''D'' = Some docD
   \<and> roomPresence (after (disconnect sockA world0)) = []
   \<and> roomPresence (after (join_note_resume sockA alice ''D'' (note_table world0 ''D'')
                             (after (disconnect sockA world0)))) =
       [(''D'', [(''s1'', JObj [(''odId'', JStr ''uA''), (''name'', JStr ''Alice''),
                               (''email'', JStr ''alice@example.org'')])])]
   \<and> rooms_of (roomPresence (after (join_note_resume sockA alice ''D'' (note_table world0 ''D'')
                                       (after (disconnect sockA world0))))) ''s1'' = [''D'']
   \<and> roomPresence (after (leave_note sockA ''D'' world0)) = []
   \<and> rooms_of (roomPresence (after (join_note_resume sockA alice ''D'' (note_table world0 ''D'')
                                       (after (leave_note sockA ''D'' world0))))) ''s1'' = [''D'']"
  by (simp add: example_defs handler_defs join_note_resume_def rooms_of_def in_room_def)

text \<open>
  C4. The owner's update whose database write fails: the handler emits nothing at all, so
  no \<^verbatim>\<open>note-updated\<close> goes out, and no \<^verbatim>\<open>error\<close> event reaches the caller either;
  the handler's promise is rejected instead. Here Alice, owner of D, sends the update
  while she and Bob are in the room.
\<close>

theorem failed_write_reports_nothing:
  "user sockA = Some alice \<and> note_table (run world0 both_joined) ''D'' = Some docD
   \<and> ownerId docD = userId alice
   \<and> note_update sockA ''D'' ''X'' None Write_fails (run world0 both_joined) =
       \<lparr>after = run world0 both_joined, emitted = [], rejected = True\<rparr>"
proof -
  have h1: "user sockA = Some alice" by (simp add: sockA_def)
  have h2: "note_table (run world0 both_joined) ''D'' = Some docD"
    by (simp add: both_joined_run)
  have h3: "ownerId docD = userId alice" by (simp add: docD_def alice_def)
  show ?thesis
    using h1 h2 h3 note_update_write_fails [OF h1 h2 h3] by simp
qed

text \<open>
  C5, as stated, fails on the property names: the presence objects carry the user id
  under \<^verbatim>\<open>odId\<close>, and no property \<^verbatim>\<open>userId\<close>. Alice opens D on the fresh server.
\<close>

theorem presence_objects_have_no_userId_key:
  "emitted (join_note sockA ''D'' world0) =
     [\<lparr>target = To_room ''D'', recipients = [''s1''], event = ''presence-update'',
       payload = JObj [(''users'', JArr [JObj [(''odId'', JStr ''uA''), (''name'', JStr ''Alice''),
                                              (''email'', JStr ''alice@example.org'')]])]\<rparr>]
   \<and> \<not> snapshot_shape [''userId'', ''name'', ''email'']
         (payload (hd (emitted (join_note sockA ''D'' world0))))
   \<and> snapshot_shape [''odId'', ''name'', ''email'']
         (payload (hd (emitted (join_note sockA ''D'' world0))))"
  by (simp add: example_defs handler_defs)

text \<open>
  C5, amended. In a run from the empty registry, every \<^verbatim>\<open>presence-update\<close> a handler
  emits is addressed to a room and carries the membership of that room at that moment as
  \<^verbatim>\<open>{users: [{odId, name, email}, ...]}\<close>: one object per socket id in the room's Map,
  holding the user id of that socket's user under \<^verbatim>\<open>odId\<close>, the display name under
  \<^verbatim>\<open>name\<close> and the email under \<^verbatim>\<open>email\<close>. The room's Map is the one the handler
  leaves behind; no later step of the handler touches a room after its broadcast.
\<close>

theorem presence_update_is_snapshot:
  assumes "roomPresence w0 = []" and "list_all (\<lambda>x. known who (fst x)) evs"
    and "known who socket"
    and "e \<in> set (emitted (handle socket ev (run w0 evs)))"
    and "event e = ''presence-update''"
  shows "\<exists>r room. target e = To_room r
       \<and> Map_get (roomPresence (after (handle socket ev (run w0 evs)))) r = Some room
       \<and> distinct (map fst room)
       \<and> payload e =
           JObj [(''users'', JArr (map (\<lambda>sid. JObj [(''odId'', JStr (userId (who sid))),
                                                    (''name'', JStr (name (who sid))),
                                                    (''email'', JStr (email (who sid)))])
                                     (map fst room)))]
       \<and> snapshot_shape [''odId'', ''name'', ''email''] (payload e)"
proof -
  from reached_snapshot [OF assms] obtain r room where
    a: "target e = To_room r"
      "Map_get (roomPresence (after (handle socket ev (run w0 evs)))) r = Some room"
      "distinct (map fst room)"
    and p: "payload e = presence_payload (map (\<lambda>sid. PresenceUser (who sid)) (map fst room))"
    by blast
  have "snapshot_shape [''odId'', ''name'', ''email''] (payload e)"
    unfolding p by (rule snapshot_shape_presence)
  moreover have "payload e =
           JObj [(''users'', JArr (map (\<lambda>sid. JObj [(''odId'', JStr (userId (who sid))),
                                                    (''name'', JStr (name (who sid))),
                                                    (''email'', JStr (email (who sid)))])
                                     (map fst room)))]"
    unfolding p by (simp add: presence_payload_def PresenceUser_def)
  ultimately show ?thesis using a by blast
qed

theorem presence_update_is_snapshot_witness:
  "roomPresence world0 = [] \<and> list_all (\<lambda>x. known example_who (fst x)) alice_alone
   \<and> known example_who sockB
   \<and> emitted (handle sockB (Join_note ''D'') (run world0 alice_alone)) =
       [\<lparr>target = To_room ''D'', recipients = [''s1'', ''s2''], event = ''presence-update'',
         payload = presence_payload [PresenceUser alice, PresenceUser bob]\<rparr>]
   \<and> snapshot_shape [''odId'', ''name'', ''email'']
         (presence_payload [PresenceUser alice, PresenceUser bob])
   \<and> presence_payload [PresenceUser alice, PresenceUser bob] =
       JObj [(''users'', JArr [JObj [(''odId'', JStr ''uA''), (''name'', JStr ''Alice''),
                                    (''email'', JStr ''alice@example.org'')],
                              JObj [(''odId'', JStr ''uB''), (''name'', JStr ''Bob''),
                                    (''email'', JStr ''bob@example.org'')]])]"
proof -
  let ?e = "\<lparr>target = To_room ''D'', recipients = [''s1'', ''s2''], event = ''presence-update'',
         payload = presence_payload [PresenceUser alice, PresenceUser bob]\<rparr>"
  have h0: "roomPresence world0 = []" by (simp add: world0_def)
  have h1: "list_all (\<lambda>x. known example_who (fst x)) alice_alone"
    by (simp add: alice_alone_def known_examples)
  have h2: "known example_who sockB" by (rule known_examples)
  have em: "emitted (handle sockB (Join_note ''D'') (run world0 alice_alone)) = [?e]"
    using bob_joins_alice by simp
  then have h3: "?e \<in> set (emitted (handle sockB (Join_note ''D'') (run world0 alice_alone)))"
    by simp
  have h4: "event ?e = ''presence-update''" by simp
  from presence_update_is_snapshot [OF h0 h1 h2 h3 h4]
  have shape: "snapshot_shape [''odId'', ''name'', ''email'']
         (presence_payload [PresenceUser alice, PresenceUser bob])"
    by auto
  have lit: "presence_payload [PresenceUser alice, PresenceUser bob] =
       JObj [(''users'', JArr [JObj [(''odId'', JStr ''uA''), (''name'', JStr ''Alice''),
                                    (''email'', JStr ''alice@example.org'')],
                              JObj [(''odId'', JStr ''uB''), (''name'', JStr ''Bob''),
                                    (''email'', JStr ''bob@example.org'')]])]"
    by (simp add: presence_payload_def PresenceUser_def alice_def bob_def)
  show ?thesis using h0 h1 h2 em shape lit by blast
qed

text \<open>
  C6. Joining an existing note twice in a row from the same socket leaves the whole state,
  and so the registry, as the first join left it; the room then holds exactly one entry
  under the socket's id, the presence object of its user.
\<close>

theorem join_twice_is_join_once:
  assumes "roomPresence w0 = []"
    and "user socket = Some u"
    and "note_table (run w0 evs) noteId = Some d"
  shows "after (join_note socket noteId (after (join_note socket noteId (run w0 evs)))) =
           after (join_note socket noteId (run w0 evs))
       \<and> roomPresence (after (join_note socket noteId (after (join_note socket noteId (run w0 evs))))) =
           roomPresence (after (join_note socket noteId (run w0 evs)))
       \<and> (\<exists>room. Map_get (roomPresence (after (join_note socket noteId
                       (after (join_note socket noteId (run w0 evs)))))) noteId = Some room
              \<and> Map_get room (socket_id socket) = Some (PresenceUser u)
              \<and> length (filter (\<lambda>e. fst e = socket_id socket) room) = 1)"
proof -
  let ?w = "run w0 evs"
  let ?w1 = "after (join_note socket noteId ?w)"
  have same: "after (join_note socket noteId ?w1) = ?w1"
    using assms(2,3) by (rule join_note_twice)
  have "entries_distinct (roomPresence w0)"
    using assms(1) by (simp add: entries_distinct_def)
  then have "entries_distinct (roomPresence ?w)" by (rule run_entries)
  then have ed: "entries_distinct (roomPresence ?w1)" by (rule join_note_entries)
  let ?room = "Map_set (case Map_get (roomPresence ?w) noteId of None \<Rightarrow> [] | Some m \<Rightarrow> m)
                 (socket_id socket) (PresenceUser u)"
  have g: "Map_get (roomPresence ?w1) noteId = Some ?room"
    using join_note_get [OF assms(2,3), of noteId] by simp
  have "distinct (map fst ?room)"
    using ed Map_get_mem [OF g] by (auto simp: entries_distinct_def list_all_iff)
  moreover have "Map_has ?room (socket_id socket)"
    by (simp add: Map_has_set)
  ultimately have "length (filter (\<lambda>e. fst e = socket_id socket) ?room) = 1"
    by (rule one_entry)
  moreover have "Map_get ?room (socket_id socket) = Some (PresenceUser u)"
    by (simp add: Map_get_set)
  ultimately show ?thesis
    using g by (simp add: same)
qed

theorem join_twice_is_join_once_witness:
  "roomPresence world0 = [] \<and> user sockB = Some bob
   \<and> note_table (run world0 [(sockA, Join_note ''D'')]) ''D'' = Some docD
   \<and> roomPresence (after (join_note sockB ''D'' (after (join_note sockB ''D''
         (run world0 [(sockA, Join_note ''D'')]))))) =
       roomPresence (after (join_note sockB ''D'' (run world0 [(sockA, Join_note ''D'')])))
   \<and> roomPresence (after (join_note sockB ''D'' (run world0 [(sockA, Join_note ''D'')]))) =
       [(''D'', [(''s1'', PresenceUser alice), (''s2'', PresenceUser bob)])]"
proof -
  have h0: "roomPresence world0 = []" by (simp add: world0_def)
  have h1: "user sockB = Some bob" by (simp add: sockB_def)
  have h2: "note_table (run world0 [(sockA, Join_note ''D'')]) ''D'' = Some docD"
    by (simp add: example_defs handler_defs)
  have v: "roomPresence (after (join_note sockB ''D'' (run world0 [(sockA, Join_note ''D'')]))) =
       [(''D'', [(''s1'', PresenceUser alice), (''s2'', PresenceUser bob)])]"
    by (simp add: example_defs handler_defs)
  show ?thesis
    using h0 h1 h2 v
      join_twice_is_join_once [OF h0 h1 h2, THEN conjunct2, THEN conjunct1]
    by simp
qed

text \<open>
  C7. The claim fails where the room has members. Bob is in the room of D, Alice is not.
  Alice's \<^verbatim>\<open>leave-note\<close> for D changes nothing in the registry, and the server still
  broadcasts a \<^verbatim>\<open>presence-update\<close> to the room: \<^verbatim>\<open>handleLeaveNote\<close> does not ask whether
  the socket was in the room. The \<^verbatim>\<open>disconnect\<close> handler asks (\<^verbatim>\<open>room.has(socket.id)\<close>)
  and, for the same socket in the same state, emits nothing.
\<close>

theorem outsider_leave_rebroadcasts:
  "\<not> in_room (roomPresence (run world0 only_bob)) ''D'' (socket_id sockA)
   \<and> roomPresence (after (leave_note sockA ''D'' (run world0 only_bob))) =
       roomPresence (run world0 only_bob)
   \<and> emitted (leave_note sockA ''D'' (run world0 only_bob)) =
       [\<lparr>target = To_room ''D'', recipients = [''s2''], event = ''presence-update'',
         payload = JObj [(''users'', JArr [JObj [(''odId'', JStr ''uB''), (''name'', JStr ''Bob''),
                                                (''email'', JStr ''bob@example.org'')]])]\<rparr>]
   \<and> emitted (leave_note sockA ''D'' (run world0 only_bob)) \<noteq> []
   \<and> emitted (disconnect sockA (run world0 only_bob)) = []"
  by (simp add: only_bob_def example_defs handler_defs in_room_def)

text \<open>
  C8, as stated, fails: Alice owns D and has not joined its room, Bob has. Her update
  is stored and broadcast, and the broadcast reaches Bob only.
\<close>

theorem owner_outside_room_gets_no_echo:
  "user sockA = Some alice \<and> note_table (run world0 only_bob) ''D'' = Some docD
   \<and> ownerId docD = userId alice
   \<and> rejected (note_update sockA ''D'' ''X'' None Write_succeeds (run world0 only_bob)) = False
   \<and> emitted (note_update sockA ''D'' ''X'' None Write_succeeds (run world0 only_bob)) =
       [\<lparr>target = To_room ''D'', recipients = [''s2''], event = ''note-updated'',
         payload = JObj [(''content'', JStr ''X''), (''title'', JUndefined),
                         (''updatedBy'', JStr ''Alice'')]\<rparr>]
   \<and> socket_id sockA \<notin> set (recipients (hd (emitted
         (note_update sockA ''D'' ''X'' None Write_succeeds (run world0 only_bob)))))"
proof -
  have h1: "user sockA = Some alice" by (simp add: sockA_def)
  have h2: "note_table (run world0 only_bob) ''D'' = Some docD"
    by (simp add: only_bob_run)
  have h3: "ownerId docD = userId alice" by (simp add: docD_def alice_def)
  have sid: "socket_id sockA = ''s1''" by (simp add: sockA_def)
  have n: "name alice = ''Alice''" by (simp add: alice_def)
  show ?thesis
    using h1 h2 h3
    by (simp add: note_update_write_succeeds [OF h1 h2 h3] only_bob_run
        note_updated_payload_def sid n)
qed

text \<open>
  C8, amended. A successful update by the owner of an existing note is broadcast once, as
  \<^verbatim>\<open>note-updated\<close>, to exactly the sockets that are in the note's Socket.IO room when it is
  emitted: to every member of that room, and to the owner's own socket if and only if it
  is in that room itself.
\<close>

theorem update_echo_exactly_to_room:
  assumes "user socket = Some u" and "note_table w noteId = Some d" and "ownerId d = userId u"
  shows "emitted (note_update socket noteId c t Write_succeeds w) =
           [\<lparr>target = To_room noteId, recipients = rooms w noteId, event = ''note-updated'',
             payload = JObj [(''content'', JStr c),
                             (''title'', (case t of None \<Rightarrow> JUndefined | Some t' \<Rightarrow> JStr t')),
                             (''updatedBy'', JStr (name u))]\<rparr>]
       \<and> (\<forall>sid. (\<exists>e \<in> set (emitted (note_update socket noteId c t Write_succeeds w)).
                      event e = ''note-updated'' \<and> sid \<in> set (recipients e)) =
                 (sid \<in> set (rooms w noteId)))
       \<and> ((\<exists>e \<in> set (emitted (note_update socket noteId c t Write_succeeds w)).
               event e = ''note-updated'' \<and> socket_id socket \<in> set (recipients e)) =
            (socket_id socket \<in> set (rooms w noteId)))"
  by (simp add: note_update_write_succeeds [OF assms] note_updated_payload_def)

theorem update_echo_exactly_to_room_witness:
  "user sockA = Some alice \<and> note_table (run world0 both_joined) ''D'' = Some docD
   \<and> ownerId docD = userId alice
   \<and> socket_id sockA \<in> set (rooms (run world0 both_joined) ''D'')
   \<and> socket_id sockB \<in> set (rooms (run world0 both_joined) ''D'')
   \<and> emitted (note_update sockA ''D'' ''X'' None Write_succeeds (run world0 both_joined)) =
       [\<lparr>target = To_room ''D'', recipients = [''s1'', ''s2''], event = ''note-updated'',
         payload = JObj [(''content'', JStr ''X''), (''title'', JUndefined),
                         (''updatedBy'', JStr ''Alice'')]\<rparr>]"
proof -
  have h1: "user sockA = Some alice" by (simp add: sockA_def)
  have h2: "note_table (run world0 both_joined) ''D'' = Some docD"
    by (simp add: both_joined_run)
  have h3: "ownerId docD = userId alice" by (simp add: docD_def alice_def)
  have a: "socket_id sockA \<in> set (rooms (run world0 both_joined) ''D'')"
    by (simp add: both_joined_run sockA_def)
  have b: "socket_id sockB \<in> set (rooms (run world0 both_joined) ''D'')"
    by (simp add: both_joined_run sockB_def)
  have n: "name alice = ''Alice''" by (simp add: alice_def)
  have e: "emitted (note_update sockA ''D'' ''X'' None Write_succeeds (run world0 both_joined)) =
       [\<lparr>target = To_room ''D'', recipients = [''s1'', ''s2''], event = ''note-updated'',
         payload = JObj [(''content'', JStr ''X''), (''title'', JUndefined),
                         (''updatedBy'', JStr ''Alice'')]\<rparr>]"
    using update_echo_exactly_to_room [OF h1 h2 h3, of "''X''" None, THEN conjunct1]
    by (simp add: both_joined_run n)
  show ?thesis using h1 h2 h3 a b e by simp
qed

text \<open>
  C9. An update by the owner of an existing note whose write succeeds is stored
  (\<^verbatim>\<open>content\<close> always, \<^verbatim>\<open>title\<close> when sent) and broadcast as \<^verbatim>\<open>note-updated\<close> to
  the sockets in the note's room at that moment. Nothing is assumed about the author's
  own membership: the witness is an owner who never joined.
\<close>

theorem owner_update_needs_no_membership:
  assumes "user socket = Some u" and "note_table w noteId = Some d" and "ownerId d = userId u"
  shows "rejected (note_update socket noteId c t Write_succeeds w) = False
       \<and> note_table (after (note_update socket noteId c t Write_succeeds w)) =
           (note_table w)(noteId \<mapsto>
              d\<lparr>content := c, title := (case t of None \<Rightarrow> title d | Some t' \<Rightarrow> t')\<rparr>)
       \<and> emitted (note_update socket noteId c t Write_succeeds w) =
           [\<lparr>target = To_room noteId, recipients = rooms w noteId,
             event = ''note-updated'', payload = note_updated_payload c t (name u)\<rparr>]"
  by (simp add: note_update_write_succeeds [OF assms])

theorem owner_update_needs_no_membership_witness:
  "user sockA = Some alice \<and> note_table (run world0 only_bob) ''D'' = Some docD
   \<and> ownerId docD = userId alice
   \<and> \<not> in_room (roomPresence (run world0 only_bob)) ''D'' (socket_id sockA)
   \<and> socket_id sockA \<notin> set (rooms (run world0 only_bob) ''D'')
   \<and> note_table (after (note_update sockA ''D'' ''X'' None Write_succeeds (run world0 only_bob))) ''D'' =
       Some \<lparr>ownerId = ''uA'', title = ''T'', content = ''X''\<rparr>
   \<and> emitted (note_update sockA ''D'' ''X'' None Write_succeeds (run world0 only_bob)) =
       [\<lparr>target = To_room ''D'', recipients = [''s2''], event = ''note-updated'',
         payload = JObj [(''content'', JStr ''X''), (''title'', JUndefined),
                         (''updatedBy'', JStr ''Alice'')]\<rparr>]"
proof -
  have h1: "user sockA = Some alice" by (simp add: sockA_def)
  have h2: "note_table (run world0 only_bob) ''D'' = Some docD"
    by (simp add: only_bob_run)
  have h3: "ownerId docD = userId alice" by (simp add: docD_def alice_def)
  have h4: "\<not> in_room (roomPresence (run world0 only_bob)) ''D'' (socket_id sockA)"
    by (simp add: only_bob_run in_room_def Map_get_def Map_has_def sockA_def)
  have h5: "socket_id sockA \<notin> set (rooms (run world0 only_bob) ''D'')"
    by (simp add: only_bob_run sockA_def)
  show ?thesis
    using h1 h2 h3 h4 h5
      owner_update_needs_no_membership [OF h1 h2 h3, of "''X''" None]
    by (simp add: only_bob_run note_updated_payload_def docD_def alice_def)
qed

text \<open>
  C10. Presence entries are keyed by socket id. When two different sockets of the same
  user are in a room, the room's Map holds one entry for each of them, and every
  \<^verbatim>\<open>presence-update\<close> emitted for that room lists an object with that user's id at
  least twice.
\<close>

theorem same_user_listed_once_per_connection:
  assumes "roomPresence w0 = []" and "list_all (\<lambda>x. known who (fst x)) evs"
    and "known who socket"
    and "in_room (roomPresence (after (handle socket ev (run w0 evs)))) r sid1"
    and "in_room (roomPresence (after (handle socket ev (run w0 evs)))) r sid2"
    and "sid1 \<noteq> sid2"
    and "userId (who sid1) = uid" and "userId (who sid2) = uid"
  shows "(\<exists>room. Map_get (roomPresence (after (handle socket ev (run w0 evs)))) r = Some room
            \<and> Map_get room sid1 =
                  Some (JObj [(''odId'', JStr uid), (''name'', JStr (name (who sid1))),
                              (''email'', JStr (email (who sid1)))])
            \<and> Map_get room sid2 =
                  Some (JObj [(''odId'', JStr uid), (''name'', JStr (name (who sid2))),
                              (''email'', JStr (email (who sid2)))])
            \<and> length (filter (\<lambda>p. fst p = sid1 \<or> fst p = sid2) room) = 2)
       \<and> (\<forall>e \<in> set (emitted (handle socket ev (run w0 evs))).
             event e = ''presence-update'' \<and> target e = To_room r \<longrightarrow>
             (\<exists>us. payload e = JObj [(''users'', JArr us)]
                \<and> 2 \<le> length (filter (\<lambda>v. obj_prop v ''odId'' = Some (JStr uid)) us)))"
proof -
  let ?w' = "after (handle socket ev (run w0 evs))"
  from assms(4) obtain room where g: "Map_get (roomPresence ?w') r = Some room"
    and m1: "Map_has room sid1"
    by (auto simp: in_room_def split: option.splits)
  from assms(5) g have m2: "Map_has room sid2"
    by (simp add: in_room_def)
  note rr = reached_room [OF assms(1,2,3) g]
  then have d: "distinct (map fst room)"
    and v: "Map_values room = map (\<lambda>sid. PresenceUser (who sid)) (map fst room)"
    by simp_all
  have by_who: "snd p = PresenceUser (who (fst p))" if "p \<in> set room" for p
  proof -
    from that obtain i where "i < length room" "room ! i = p"
      by (auto simp: in_set_conv_nth)
    then have "Map_values room ! i = snd p" by (simp add: Map_values_def)
    moreover have "map (\<lambda>sid. PresenceUser (who sid)) (map fst room) ! i = PresenceUser (who (fst p))"
      using \<open>i < length room\<close> \<open>room ! i = p\<close> by simp
    ultimately show ?thesis using v by simp
  qed
  have get: "Map_get room sid = Some (PresenceUser (who sid))" if "Map_has room sid" for sid
  proof -
    from that obtain x where "Map_get room sid = Some x"
      by (auto simp: Map_has_get)
    moreover from this have "(sid, x) \<in> set room" by (rule Map_get_mem)
    then have "x = PresenceUser (who sid)" using by_who by fastforce
    ultimately show ?thesis by simp
  qed
  have one: "length (filter (\<lambda>p. fst p = sid1) room) = 1" "length (filter (\<lambda>p. fst p = sid2) room) = 1"
    using d m1 m2 by (simp_all add: one_entry)
  have "length (filter (\<lambda>p. fst p = sid1 \<or> fst p = sid2) room) =
        length (filter (\<lambda>p. fst p = sid1) room) + length (filter (\<lambda>p. fst p = sid2) room)"
    using assms(6) by (induction room) auto
  with one have two: "length (filter (\<lambda>p. fst p = sid1 \<or> fst p = sid2) room) = 2"
    by simp
  have lit: "PresenceUser (who sid) =
        JObj [(''odId'', JStr uid), (''name'', JStr (name (who sid))),
              (''email'', JStr (email (who sid)))]" if "userId (who sid) = uid" for sid
    using that by (simp add: PresenceUser_def)
  have first: "\<exists>room. Map_get (roomPresence ?w') r = Some room
            \<and> Map_get room sid1 =
                  Some (JObj [(''odId'', JStr uid), (''name'', JStr (name (who sid1))),
                              (''email'', JStr (email (who sid1)))])
            \<and> Map_get room sid2 =
                  Some (JObj [(''odId'', JStr uid), (''name'', JStr (name (who sid2))),
                              (''email'', JStr (email (who sid2)))])
            \<and> length (filter (\<lambda>p. fst p = sid1 \<or> fst p = sid2) room) = 2"
    using g get [OF m1] get [OF m2] two lit [OF assms(7)] lit [OF assms(8)] by auto
  have k1: "sid1 \<in> set (map fst room)" and k2: "sid2 \<in> set (map fst room)"
    using m1 m2 by (simp_all add: Map_has_def)
  have count: "2 \<le> length (filter (\<lambda>sid. userId (who sid) = uid) (map fst room))"
    using k1 k2 assms(6,7,8) by (intro two_in_filter [of sid1 _ sid2]) simp_all
  have second: "\<exists>us. payload e = JObj [(''users'', JArr us)]
                \<and> 2 \<le> length (filter (\<lambda>v. obj_prop v ''odId'' = Some (JStr uid)) us)"
    if e: "e \<in> set (emitted (handle socket ev (run w0 evs)))"
      and ev: "event e = ''presence-update''" and tg: "target e = To_room r" for e
  proof -
    from reached_snapshot [OF assms(1,2,3) e ev] obtain r' room' where
      "target e = To_room r'" "Map_get (roomPresence ?w') r' = Some room'"
      "payload e = presence_payload (map (\<lambda>sid. PresenceUser (who sid)) (map fst room'))"
      by blast
    with tg g have p: "payload e = presence_payload (map (\<lambda>sid. PresenceUser (who sid)) (map fst room))"
      by simp
    have "filter (\<lambda>v. obj_prop v ''odId'' = Some (JStr uid))
            (map (\<lambda>sid. PresenceUser (who sid)) (map fst room)) =
          map (\<lambda>sid. PresenceUser (who sid))
            (filter (\<lambda>sid. userId (who sid) = uid) (map fst room))"
      by (simp add: filter_map comp_def PresenceUser_def)
    with count p show ?thesis by (auto simp: presence_payload_def)
  qed
  from first second show ?thesis by blast
qed

theorem same_user_listed_once_per_connection_witness:
  "roomPresence world0 = [] \<and> list_all (\<lambda>x. known example_who (fst x)) alice_alone
   \<and> known example_who sockA2
   \<and> in_room (roomPresence (after (handle sockA2 (Join_note ''D'') (run world0 alice_alone)))) ''D'' ''s1''
   \<and> in_room (roomPresence (after (handle sockA2 (Join_note ''D'') (run world0 alice_alone)))) ''D'' ''s3''
   \<and> userId (example_who ''s1'') = ''uA'' \<and> userId (example_who ''s3'') = ''uA''
   \<and> roomPresence (after (handle sockA2 (Join_note ''D'') (run world0 alice_alone))) =
       [(''D'', [(''s1'', PresenceUser alice), (''s3'', PresenceUser alice)])]
   \<and> emitted (handle sockA2 (Join_note ''D'') (run world0 alice_alone)) =
       [\<lparr>target = To_room ''D'', recipients = [''s1'', ''s3''], event = ''presence-update'',
         payload = presence_payload [PresenceUser alice, PresenceUser alice]\<rparr>]
   \<and> 2 \<le> length (filter (\<lambda>v. obj_prop v ''odId'' = Some (JStr ''uA''))
                      [PresenceUser alice, PresenceUser alice])"
proof -
  let ?e = "\<lparr>target = To_room ''D'', recipients = [''s1'', ''s3''], event = ''presence-update'',
         payload = presence_payload [PresenceUser alice, PresenceUser alice]\<rparr>"
  have h0: "roomPresence world0 = []" by (simp add: world0_def)
  have h1: "list_all (\<lambda>x. known example_who (fst x)) alice_alone"
    by (simp add: alice_alone_def known_examples)
  have h2: "known example_who sockA2" by (rule known_examples)
  have rp: "roomPresence (after (handle sockA2 (Join_note ''D'') (run world0 alice_alone))) =
       [(''D'', [(''s1'', PresenceUser alice), (''s3'', PresenceUser alice)])]"
    using second_tab_joins by simp
  have em: "emitted (handle sockA2 (Join_note ''D'') (run world0 alice_alone)) =
       [\<lparr>target = To_room ''D'', recipients = [''s1'', ''s3''], event = ''presence-update'',
         payload = presence_payload [PresenceUser alice, PresenceUser alice]\<rparr>]"
    using second_tab_joins by simp
  have h3: "in_room (roomPresence (after (handle sockA2 (Join_note ''D'') (run world0 alice_alone)))) ''D'' ''s1''"
    unfolding rp by (simp add: in_room_def Map_get_def Map_has_def)
  have h4: "in_room (roomPresence (after (handle sockA2 (Join_note ''D'') (run world0 alice_alone)))) ''D'' ''s3''"
    unfolding rp by (simp add: in_room_def Map_get_def Map_has_def)
  have h5: "''s1'' \<noteq> ''s3''" by simp
  have h6: "userId (example_who ''s1'') = ''uA''" by (simp add: example_who_def alice_def)
  have h7: "userId (example_who ''s3'') = ''uA''" by (simp add: example_who_def alice_def)
  note t = same_user_listed_once_per_connection [OF h0 h1 h2 h3 h4 h5 h6 h7]
  have "?e \<in> set (emitted (handle sockA2 (Join_note ''D'') (run world0 alice_alone)))"
    unfolding em by simp
  with t [THEN conjunct2] have "\<exists>us. payload ?e = JObj [(''users'', JArr us)]
      \<and> 2 \<le> length (filter (\<lambda>v. obj_prop v ''odId'' = Some (JStr ''uA'')) us)"
    by fastforce
  then have twice: "2 \<le> length (filter (\<lambda>v. obj_prop v ''odId'' = Some (JStr ''uA''))
                      [PresenceUser alice, PresenceUser alice])"
    by (auto simp: presence_payload_def)
  show ?thesis
    using h0 h1 h2 h3 h4 h6 h7 rp em twice by blast
qed

end
